theory Spec2Isabelle
  imports Complex_Main
begin

section \<open>Data model of \<open>document_intelligence.py\<close>\<close>

text \<open>
  Python strings are sequences of code points; the model uses \<^typ>\<open>string\<close> and reads a
  \<^typ>\<open>char\<close> as a code point in the range 0..255. Python \<open>int\<close> is \<^typ>\<open>int\<close>. Python
  \<open>float\<close> values (confidences, scores, thresholds) are modelled by exact rationals. The
  comparisons of the classifier are between quotients of small integers, whose double
  results compare exactly as the rationals do (\<open>1/5 < 0.2\<close> is false and \<open>1/6 < 0.2\<close> is
  true in both). The thresholds of the layout segmentation agree with the rationals for
  page heights below \<open>2^52\<close> and can differ above; the property that depends on them
  carries that bound. The mean confidence of a line is the exact mean, which the double
  sum of the source can miss in the last bit; no property below states such a mean.
\<close>

datatype DocumentType = INVOICE | RECEIPT | CONTRACT | FORM | LETTER | REPORT | UNKNOWN

type_synonym bbox = "int \<times> int \<times> int \<times> int"

text \<open>Indexing a 4-tuple: \<open>t[0]\<close> .. \<open>t[3]\<close>.\<close>

fun tup0 :: "int \<times> int \<times> int \<times> int \<Rightarrow> int" where "tup0 (a, b, c, d) = a"
fun tup1 :: "int \<times> int \<times> int \<times> int \<Rightarrow> int" where "tup1 (a, b, c, d) = b"
fun tup2 :: "int \<times> int \<times> int \<times> int \<Rightarrow> int" where "tup2 (a, b, c, d) = c"
fun tup3 :: "int \<times> int \<times> int \<times> int \<Rightarrow> int" where "tup3 (a, b, c, d) = d"

record Word =
  word_text :: string
  word_confidence :: rat
  word_bbox :: bbox
  word_position :: string

record TextLine =
  line_text :: string
  line_words :: "Word list"
  line_confidence :: rat
  line_bbox :: bbox

record Table =
  rows :: int
  cols :: int
  cells :: "string list list"
  table_bbox :: bbox
  table_confidence :: rat

record DocumentLayout =
  header :: "TextLine list"
  body :: "TextLine list"
  footer :: "TextLine list"
  tables :: "Table list"
  page_width :: int
  page_height :: int

record ExtractedField =
  field_name :: string
  field_value :: string
  field_confidence :: rat
  field_source :: string

record Metadata =
  meta_vision_available :: bool
  meta_timestamp :: string

record DocumentIntelligence =
  file_path :: string
  doc_type :: DocumentType
  type_confidence :: rat
  layout :: DocumentLayout
  extracted_fields :: "string \<rightharpoonup> ExtractedField"
  raw_text :: string
  processing_time :: rat
  metadata :: Metadata

text \<open>\<open>Word(word, conf, bbox)\<close>: the position tag keeps its default.\<close>

definition mk_Word :: "string \<Rightarrow> rat \<Rightarrow> bbox \<Rightarrow> Word" where
  "mk_Word t c b =
     \<lparr>word_text = t, word_confidence = c, word_bbox = b, word_position = ''unknown''\<rparr>"

text \<open>\<open>DocumentLayout()\<close>: the dataclass defaults.\<close>

definition empty_layout :: DocumentLayout where
  "empty_layout =
     \<lparr>header = [], body = [], footer = [], tables = [], page_width = 0, page_height = 0\<rparr>"

section \<open>Exceptions and the string built-ins\<close>

datatype pyerror =
    IndexError | KeyError | ValueError | TypeError | AttributeError | ZeroDivisionError
  | OSError string

text \<open>\<open>xs[i]\<close> for an index \<open>i\<close> produced by \<open>enumerate\<close> (never negative).\<close>

definition list_get :: "'a list \<Rightarrow> nat \<Rightarrow> pyerror + 'a" where
  "list_get xs i = (if i < length xs then Inr (xs ! i) else Inl IndexError)"

text \<open>\<open>str.isspace\<close>, \<open>str.strip()\<close> and \<open>str.lower()\<close> on code points 0..255.\<close>

definition is_space :: "char \<Rightarrow> bool" where
  "is_space c =
     (let n = (of_char c :: nat)
      in (9 \<le> n \<and> n \<le> 13) \<or> (28 \<le> n \<and> n \<le> 32) \<or> n = 133 \<or> n = 160)"

definition strip :: "string \<Rightarrow> string" where
  "strip s = rev (dropWhile is_space (rev (dropWhile is_space s)))"

definition lower_char :: "char \<Rightarrow> char" where
  "lower_char c =
     (let n = (of_char c :: nat)
      in if (65 \<le> n \<and> n \<le> 90) \<or> (192 \<le> n \<and> n \<le> 222 \<and> n \<noteq> 215)
         then char_of (n + 32) else c)"

definition lower :: "string \<Rightarrow> string" where
  "lower s = map lower_char s"

text \<open>\<open>sep.join(xs)\<close>.\<close>

fun join :: "string \<Rightarrow> string list \<Rightarrow> string" where
  "join sep [] = []"
| "join sep [x] = x"
| "join sep (x # y # ys) = x @ sep @ join sep (y # ys)"

section \<open>Layout segmentation: \<open>_finalize_text_line\<close>\<close>

text \<open>
  The source mutates \<open>layout\<close> in place; the model returns the updated layout.
  \<open>layout.page_height / 3\<close> and \<open>layout.page_height * 2 / 3\<close> are true divisions, whose
  results are doubles; the model takes the exact quotients. For a page height of 0 and for
  every page height below \<open>2^52\<close> in absolute value the two agree on every comparison with
  an integer top (the quotient is an integer that the double holds exactly, or it lies a
  third away from the nearest integer while the double is at most a quarter away from
  the quotient). From \<open>2^52\<close> upwards they can differ: for the height \<open>3 * 2^53 + 1\<close> and the
  top \<open>2^53\<close> the source computes the threshold \<open>2^53\<close> and files the line in the body, where
  the exact quotient lies above the top. The properties of this function are stated
  inside the exact range.
\<close>

definition mk_line :: "string \<Rightarrow> Word list \<Rightarrow> bbox \<Rightarrow> TextLine" where
  "mk_line text words bb =
     \<lparr>line_text = text,
      line_words = words,
      line_confidence =
        (if words \<noteq> [] then sum_list (map word_confidence words) / of_nat (length words)
         else 0),
      line_bbox = bb\<rparr>"

definition finalize_text_line ::
  "DocumentLayout \<Rightarrow> string \<Rightarrow> Word list \<Rightarrow> bbox \<Rightarrow> DocumentLayout" where
  "finalize_text_line lay text words bb =
     (let top_third = (of_int (page_height lay) / 3 :: rat);
          bottom_third = (of_int (page_height lay * 2) / 3 :: rat);
          line = mk_line text words bb
      in if of_int (tup1 bb) < top_third then lay\<lparr>header := header lay @ [line]\<rparr>
         else if of_int (tup1 bb) > bottom_third then lay\<lparr>footer := footer lay @ [line]\<rparr>
         else lay\<lparr>body := body lay @ [line]\<rparr>)"

section \<open>Line grouping: the loop of \<open>_extract_layout\<close>\<close>

text \<open>
  The dictionary returned by \<open>pytesseract.image_to_data(..., output_type=DICT)\<close>: parallel
  lists under the keys \<open>text\<close>, \<open>top\<close>, \<open>left\<close>, \<open>width\<close>, \<open>height\<close>, \<open>conf\<close>.
  \<open>ocr_conf\<close> holds the numeric value of \<open>float(data['conf'][i])\<close>.
\<close>

record ocr_data =
  ocr_text :: "string list"
  ocr_top :: "int list"
  ocr_left :: "int list"
  ocr_width :: "int list"
  ocr_height :: "int list"
  ocr_conf :: "rat list"

text \<open>The local variables of the loop, together with the layout being filled.\<close>

record line_acc =
  acc_layout :: DocumentLayout
  current_line_y :: int
  current_line_text :: string
  current_line_words :: "Word list"
  current_line_bbox :: bbox

definition init_acc :: "DocumentLayout \<Rightarrow> line_acc" where
  "init_acc lay =
     \<lparr>acc_layout = lay, current_line_y = -1, current_line_text = [],
      current_line_words = [], current_line_bbox = (0, 0, 0, 0)\<rparr>"

text \<open>The part of the loop body after the five reads: it raises nothing.\<close>

definition place_word :: "line_acc \<Rightarrow> string \<Rightarrow> int \<Rightarrow> int \<Rightarrow> int \<Rightarrow> int \<Rightarrow> rat \<Rightarrow> line_acc" where
  "place_word st word x y w h conf =
     (let st1 =
            (if \<bar>y - current_line_y st\<bar> > 10 \<and> current_line_text st \<noteq> []
             then st\<lparr>acc_layout :=
                        finalize_text_line (acc_layout st) (current_line_text st)
                          (current_line_words st) (current_line_bbox st),
                      current_line_text := [],
                      current_line_words := [],
                      current_line_y := y\<rparr>
             else st);
          st2 = st1\<lparr>current_line_y := y,
                    current_line_text :=
                      current_line_text st1
                        @ (if current_line_text st1 \<noteq> [] then '' '' else []) @ word,
                    current_line_words :=
                      current_line_words st1 @ [mk_Word word conf (x, y, w, h)]\<rparr>;
          cb = current_line_bbox st2
      in if tup2 cb = 0 then st2\<lparr>current_line_bbox := (x, y, w, h)\<rparr>
         else st2\<lparr>current_line_bbox :=
                    (min (tup0 cb) x, min (tup1 cb) y,
                     max (tup2 cb) (x + w), max (tup3 cb) (y + h))\<rparr>)"

text \<open>One iteration: a blank word is skipped, then the reads, in the source's order.\<close>

definition loop_body :: "ocr_data \<Rightarrow> line_acc \<Rightarrow> nat \<Rightarrow> string \<Rightarrow> pyerror + line_acc" where
  "loop_body data st i word =
     (if strip word = [] then Inr st
      else (case list_get (ocr_top data) i of Inl e \<Rightarrow> Inl e | Inr y \<Rightarrow>
           (case list_get (ocr_left data) i of Inl e \<Rightarrow> Inl e | Inr x \<Rightarrow>
           (case list_get (ocr_width data) i of Inl e \<Rightarrow> Inl e | Inr w \<Rightarrow>
           (case list_get (ocr_height data) i of Inl e \<Rightarrow> Inl e | Inr h \<Rightarrow>
           (case list_get (ocr_conf data) i of Inl e \<Rightarrow> Inl e | Inr c \<Rightarrow>
              Inr (place_word st word x y w h (c / 100))))))))"

text \<open>
  The \<open>for\<close> loop over \<open>enumerate(data['text'])\<close>. An exception leaves the loop with the
  layout as mutated so far, which is what the handler of \<open>_extract_layout\<close> returns.
\<close>

fun group_words ::
  "ocr_data \<Rightarrow> (nat \<times> string) list \<Rightarrow> line_acc \<Rightarrow> (pyerror \<times> DocumentLayout) + line_acc" where
  "group_words data [] st = Inr st"
| "group_words data ((i, word) # rest) st =
     (case loop_body data st i word of
        Inl e \<Rightarrow> Inl (e, acc_layout st)
      | Inr st' \<Rightarrow> group_words data rest st')"

text \<open>The code after the loop: the last line is finalized when it has text.\<close>

definition finish_lines :: "line_acc \<Rightarrow> DocumentLayout" where
  "finish_lines st =
     (if current_line_text st \<noteq> []
      then finalize_text_line (acc_layout st) (current_line_text st)
             (current_line_words st) (current_line_bbox st)
      else acc_layout st)"

text \<open>The grouping of one word table into the layout \<open>lay\<close>, as the \<open>try\<close> block leaves it.\<close>

definition group_lines :: "DocumentLayout \<Rightarrow> ocr_data \<Rightarrow> DocumentLayout" where
  "group_lines lay data =
     (case group_words data (enumerate 0 (ocr_text data)) (init_acc lay) of
        Inl (e, lay') \<Rightarrow> lay'
      | Inr st \<Rightarrow> finish_lines st)"

section \<open>The external capabilities\<close>

text \<open>
  What the engine obtains from outside the repository: the flag \<open>HAS_VISION\<close>, PIL's
  \<open>Image.open(path).size\<close>, Tesseract's word table, OpenCV's \<open>imread\<close> (the shape
  \<open>(height, width)\<close>, or \<open>None\<close>), the segments of \<open>Canny\<close> followed by \<open>HoughLinesP\<close>
  (or \<open>None\<close>), the clock, and \<open>re.search(pattern, text, re.IGNORECASE)\<close>. Each call that
  stands inside a \<open>try\<close> block may raise.
\<close>

type_synonym segment = "int \<times> int \<times> int \<times> int"

record rmatch =
  group0 :: string
  groups :: "string option list"

type_synonym searcher = "string \<Rightarrow> string \<Rightarrow> rmatch option"

record world =
  vision_available :: bool
  image_open :: "string \<Rightarrow> pyerror + (int \<times> int)"
  image_to_data :: "string \<Rightarrow> pyerror + ocr_data"
  imread :: "string \<Rightarrow> pyerror + (int \<times> int) option"
  hough_lines :: "string \<Rightarrow> pyerror + segment list option"
  time_start :: rat
  time_end :: rat
  timestamp :: string

section \<open>\<open>_extract_layout\<close> and \<open>_extract_raw_text\<close>\<close>

definition extract_layout :: "world \<Rightarrow> string \<Rightarrow> DocumentLayout" where
  "extract_layout wd path =
     (if \<not> vision_available wd then empty_layout
      else case image_open wd path of
             Inl e \<Rightarrow> empty_layout
           | Inr (pw, ph) \<Rightarrow>
               (let lay = empty_layout\<lparr>page_width := pw, page_height := ph\<rparr>
                in case image_to_data wd path of
                     Inl e \<Rightarrow> lay
                   | Inr data \<Rightarrow> group_lines lay data))"

definition extract_raw_text :: "DocumentLayout \<Rightarrow> string" where
  "extract_raw_text lay =
     (let all_lines = header lay @ body lay @ footer lay
      in join [CHR 0x0A] (map line_text all_lines))"

section \<open>The pattern catalogs built by \<open>__init__\<close>\<close>

text \<open>
  A raw pattern such as \<open>r"amount\s*due"\<close> is the string with its backslashes kept;
  \<open>bsl\<close> is the backslash. Both dictionaries are association lists in insertion order,
  which is the order Python iterates them in.
\<close>

abbreviation bsl :: string where
  "bsl \<equiv> [CHR 0x5C]"

definition doc_type_patterns :: "(DocumentType \<times> string list) list" where
  "doc_type_patterns =
    [(INVOICE,
       [''invoice'' @ bsl @ ''s*(?:number|no'' @ bsl @ ''.?|#)?'',
        ''amount'' @ bsl @ ''s*due'',
        ''invoice'' @ bsl @ ''s*date'',
        ''bill'' @ bsl @ ''s*to'',
        ''from|seller'']),
     (RECEIPT,
       [''receipt'' @ bsl @ ''s*(?:number|no'' @ bsl @ ''.?|#)?'',
        ''total|amount.*paid'',
        ''transaction'' @ bsl @ ''s*(?:id|number)'',
        ''item.*(?:qty|quantity|price)'',
        ''thank.*you'']),
     (CONTRACT,
       [''agreement|contract'',
        ''party|parties'',
        ''whereas'',
        ''hereinafter'',
        ''signature|signed'',
        ''effective'' @ bsl @ ''s*date'']),
     (FORM,
       [''form'' @ bsl @ ''s*(?:number|no'' @ bsl @ ''.?|#)?'',
        ''please.*(?:complete|fill)'',
        ''required.*field|field.*required'',
        bsl @ ''[.*'' @ bsl @ '']|__+'',
        ''signature'' @ bsl @ ''s*(?:line|here)'']),
     (LETTER,
       [''(?:dear|to)'' @ bsl @ ''s+'',
        ''sincerely|regards|respectfully'',
        ''(?:mr'' @ bsl @ ''.|ms'' @ bsl @ ''.|dr'' @ bsl @ ''.)'',
        ''address:|date:'']),
     (REPORT,
       [''report'' @ bsl @ ''s*(?:number|no'' @ bsl @ ''.?|#)?'',
        ''annual|quarterly|monthly|executive'' @ bsl @ ''s*summary'',
        ''table'' @ bsl @ ''s*of'' @ bsl @ ''s*contents'',
        ''findings|conclusions'',
        ''prepared'' @ bsl @ ''s*by|date''])]"

definition field_patterns :: "(string \<times> string) list" where
  "field_patterns =
    [(''invoice_number'',
        ''invoice'' @ bsl @ ''s*(?:number|no'' @ bsl @ ''.?|#)?'' @ bsl @ ''s*[:=]?'' @ bsl
          @ ''s*([A-Z0-9'' @ bsl @ ''-]+)''),
     (''invoice_date'',
        ''invoice'' @ bsl @ ''s*date'' @ bsl @ ''s*[:=]?'' @ bsl @ ''s*([''
          @ bsl @ ''d/'' @ bsl @ ''-'' @ bsl @ ''.]+)''),
     (''due_date'',
        ''(?:due|payment)'' @ bsl @ ''s*date'' @ bsl @ ''s*[:=]?'' @ bsl @ ''s*([''
          @ bsl @ ''d/'' @ bsl @ ''-'' @ bsl @ ''.]+)''),
     (''total_amount'',
        ''(?:total|amount'' @ bsl @ ''s*due)'' @ bsl @ ''s*[:=]?'' @ bsl @ ''s*[^'' @ bsl
          @ ''d]*('' @ bsl @ ''d+(?:[.,]'' @ bsl @ ''d+)*(?:[.,]'' @ bsl @ ''d{2})?)''),
     (''recipient'',
        ''(?:to|bill'' @ bsl @ ''s*to|ship'' @ bsl @ ''s*to)'' @ bsl @ ''s*[:=]?'' @ bsl
          @ ''s*([A-Za-z'' @ bsl @ ''s]+)''),
     (''sender'',
        ''(?:from|company|seller)'' @ bsl @ ''s*[:=]?'' @ bsl @ ''s*([A-Za-z'' @ bsl @ ''s]+)''),
     (''phone'',
        ''(?:phone|tel)(?:ephone)?'' @ bsl @ ''s*[:=]?'' @ bsl @ ''s*(['' @ bsl @ ''d''
          @ bsl @ ''-'' @ bsl @ ''('' @ bsl @ '')]+)''),
     (''email'',
        ''([A-Za-z0-9._%+-]+@[A-Za-z0-9.-]+'' @ bsl @ ''.[A-Z|a-z]{2,})''),
     (''address'',
        ''(?:address|street)'' @ bsl @ ''s*[:=]?'' @ bsl @ ''s*([0-9'' @ bsl @ ''s'' @ bsl
          @ ''w'' @ bsl @ ''.,#]+)''),
     (''zip_code'',
        ''(?:zip|postal)'' @ bsl @ ''s*(?:code)?'' @ bsl @ ''s*[:=]?'' @ bsl @ ''s*('' @ bsl
          @ ''d{5}(?:[-]?'' @ bsl @ ''d{4})?)'')]"

section \<open>Classification: \<open>_classify_document_type\<close>\<close>

text \<open>
  \<open>matches = sum(1 for pattern in patterns if re.search(...))\<close> and
  \<open>matches / len(patterns)\<close>; the division raises on an empty pattern list.
\<close>

definition count_matches :: "searcher \<Rightarrow> string \<Rightarrow> string list \<Rightarrow> nat" where
  "count_matches search text_lower patterns =
     length (filter (\<lambda>pattern. search pattern text_lower \<noteq> None) patterns)"

definition score_of :: "searcher \<Rightarrow> string \<Rightarrow> string list \<Rightarrow> pyerror + rat" where
  "score_of search text_lower patterns =
     (if length patterns = 0 then Inl ZeroDivisionError
      else Inr (of_nat (count_matches search text_lower patterns) / of_nat (length patterns)))"

text \<open>
  The loop filling \<open>scores\<close>. The keys of the catalog are distinct, so each assignment
  \<open>scores[doc_type] = ...\<close> adds a new key at the end of the dictionary's iteration order.
\<close>

fun compute_scores ::
  "searcher \<Rightarrow> string \<Rightarrow> (DocumentType \<times> string list) list
     \<Rightarrow> pyerror + (DocumentType \<times> rat) list" where
  "compute_scores search text_lower [] = Inr []"
| "compute_scores search text_lower ((dtype, patterns) # rest) =
     (case score_of search text_lower patterns of
        Inl e \<Rightarrow> Inl e
      | Inr sc \<Rightarrow>
          (case compute_scores search text_lower rest of
             Inl e \<Rightarrow> Inl e
           | Inr scores \<Rightarrow> Inr ((dtype, sc) # scores)))"

text \<open>
  \<open>max(scores, key=scores.get)\<close>: the built-in keeps its current item unless a later key
  is strictly greater, and raises \<open>ValueError\<close> on an empty dictionary. The model runs over
  the items, so the winner comes with \<open>scores[best_type]\<close>.
\<close>

fun max_loop :: "('a \<times> rat) \<Rightarrow> ('a \<times> rat) list \<Rightarrow> ('a \<times> rat)" where
  "max_loop best [] = best"
| "max_loop best (item # rest) = max_loop (if snd item > snd best then item else best) rest"

fun py_max :: "('a \<times> rat) list \<Rightarrow> pyerror + ('a \<times> rat)" where
  "py_max [] = Inl ValueError"
| "py_max (item # rest) = Inr (max_loop item rest)"

definition classify_document_type :: "searcher \<Rightarrow> string \<Rightarrow> pyerror + (DocumentType \<times> rat)" where
  "classify_document_type search text =
     (let text_lower = lower text
      in case compute_scores search text_lower doc_type_patterns of
           Inl e \<Rightarrow> Inl e
         | Inr scores \<Rightarrow>
             (case py_max scores of
                Inl e \<Rightarrow> Inl e
              | Inr (best_type, confidence) \<Rightarrow>
                  if confidence < 2 / 10 then Inr (UNKNOWN, confidence)
                  else Inr (best_type, confidence)))"

section \<open>Field extraction: \<open>_extract_key_fields\<close>\<close>

text \<open>
  \<open>match.group(1) if match.groups() else match.group(0)\<close>; a group that did not take part
  in the match is \<open>None\<close>, on which \<open>.strip()\<close> raises \<open>AttributeError\<close>.
\<close>

definition match_value :: "rmatch \<Rightarrow> string option" where
  "match_value m = (if groups m \<noteq> [] then hd (groups m) else Some (group0 m))"

definition mk_field :: "string \<Rightarrow> string \<Rightarrow> ExtractedField" where
  "mk_field fname v =
     \<lparr>field_name = fname, field_value = strip v, field_confidence = 85 / 100,
      field_source = ''regex''\<rparr>"

fun extract_loop ::
  "searcher \<Rightarrow> string \<Rightarrow> (string \<times> string) list \<Rightarrow> (string \<rightharpoonup> ExtractedField)
     \<Rightarrow> pyerror + (string \<rightharpoonup> ExtractedField)" where
  "extract_loop search text_lower [] flds = Inr flds"
| "extract_loop search text_lower ((fname, pattern) # rest) flds =
     (case search pattern text_lower of
        None \<Rightarrow> extract_loop search text_lower rest flds
      | Some m \<Rightarrow>
          (case match_value m of
             None \<Rightarrow> Inl AttributeError
           | Some v \<Rightarrow> extract_loop search text_lower rest (flds(fname \<mapsto> mk_field fname v))))"

definition extract_key_fields ::
  "searcher \<Rightarrow> string \<Rightarrow> DocumentLayout \<Rightarrow> pyerror + (string \<rightharpoonup> ExtractedField)" where
  "extract_key_fields search text lay = extract_loop search (lower text) field_patterns Map.empty"

section \<open>Table detection: \<open>_detect_tables\<close>\<close>

text \<open>
  A segment is the 4-vector \<open>l[0] = (x1, y1, x2, y2)\<close>. Its entries are pixel coordinates
  inside the image, so the 32-bit subtraction of the source does not wrap.
\<close>

definition h_lines_of :: "segment list \<Rightarrow> segment list" where
  "h_lines_of lines = filter (\<lambda>l. \<bar>tup1 l - tup3 l\<bar> < 5) lines"

definition v_lines_of :: "segment list \<Rightarrow> segment list" where
  "v_lines_of lines = filter (\<lambda>l. \<bar>tup0 l - tup2 l\<bar> < 5) lines"

definition mk_table :: "segment list \<Rightarrow> segment list \<Rightarrow> int \<times> int \<Rightarrow> Table" where
  "mk_table h_lines v_lines shape =
     \<lparr>rows = int (length h_lines) - 1,
      cols = int (length v_lines) - 1,
      cells = replicate (nat (int (length h_lines) - 1))
                (replicate (nat (int (length v_lines) - 1)) []),
      table_bbox = (0, 0, snd shape, fst shape),
      table_confidence = 7 / 10\<rparr>"

definition detect_tables :: "world \<Rightarrow> string \<Rightarrow> DocumentLayout \<Rightarrow> DocumentLayout" where
  "detect_tables wd path lay =
     (if \<not> vision_available wd then lay
      else case imread wd path of
             Inl e \<Rightarrow> lay
           | Inr None \<Rightarrow> lay
           | Inr (Some shape) \<Rightarrow>
               (case hough_lines wd path of
                  Inl e \<Rightarrow> lay
                | Inr None \<Rightarrow> lay
                | Inr (Some lines) \<Rightarrow>
                    (let h_lines = h_lines_of lines; v_lines = v_lines_of lines
                     in if length h_lines > 2 \<and> length v_lines > 2
                        then lay\<lparr>tables := tables lay @ [mk_table h_lines v_lines shape]\<rparr>
                        else lay)))"

section \<open>The pipeline: \<open>process_document\<close>\<close>

text \<open>
  Classification and field extraction stand outside every \<open>try\<close> block, so an exception of
  theirs would leave \<open>process_document\<close>; the layout object handed to the result is the one
  \<open>_detect_tables\<close> has appended to.
\<close>

definition process_document :: "world \<Rightarrow> searcher \<Rightarrow> string \<Rightarrow> pyerror + DocumentIntelligence" where
  "process_document wd search path =
     (let lay = extract_layout wd path;
          text = extract_raw_text lay
      in case classify_document_type search text of
           Inl e \<Rightarrow> Inl e
         | Inr (dt, conf) \<Rightarrow>
             (case extract_key_fields search text lay of
                Inl e \<Rightarrow> Inl e
              | Inr flds \<Rightarrow>
                  Inr \<lparr>file_path = path,
                       doc_type = dt,
                       type_confidence = conf,
                       layout = detect_tables wd path lay,
                       extracted_fields = flds,
                       raw_text = text,
                       processing_time = time_end wd - time_start wd,
                       metadata = \<lparr>meta_vision_available = vision_available wd,
                                   meta_timestamp = timestamp wd\<rparr>\<rparr>))"

section \<open>Vocabulary of the properties\<close>

text \<open>The three regions of a layout, and a layout with one more line in a region.\<close>

datatype region = Header | Body | Footer

definition append_line :: "region \<Rightarrow> TextLine \<Rightarrow> DocumentLayout \<Rightarrow> DocumentLayout" where
  "append_line r line lay =
     (case r of
        Header \<Rightarrow> lay\<lparr>header := header lay @ [line]\<rparr>
      | Body \<Rightarrow> lay\<lparr>body := body lay @ [line]\<rparr>
      | Footer \<Rightarrow> lay\<lparr>footer := footer lay @ [line]\<rparr>)"

text \<open>
  The catalog read as a function: the types in iteration order, the pattern list of a type,
  the fraction of a type's patterns found in the lowercased text, and the largest fraction.
\<close>

definition catalog_types :: "DocumentType list" where
  "catalog_types = map fst doc_type_patterns"

definition patterns_of :: "DocumentType \<Rightarrow> string list" where
  "patterns_of t = (case map_of doc_type_patterns t of Some ps \<Rightarrow> ps | None \<Rightarrow> [])"

definition type_score :: "searcher \<Rightarrow> string \<Rightarrow> DocumentType \<Rightarrow> rat" where
  "type_score search text t =
     of_nat (card {p \<in> set (patterns_of t). search p (lower text) \<noteq> None})
       / of_nat (length (patterns_of t))"

definition max_score :: "searcher \<Rightarrow> string \<Rightarrow> rat" where
  "max_score search text = Max (type_score search text ` set catalog_types)"

text \<open>The scores in catalog order, as \<open>compute_scores\<close> returns them.\<close>

definition score_list :: "searcher \<Rightarrow> string \<Rightarrow> (DocumentType \<times> rat) list" where
  "score_list search text = map (\<lambda>t. (t, type_score search text t)) catalog_types"

text \<open>
  \<open>t\<close> has the largest score and every type before it in the catalog has a strictly smaller one.
\<close>

definition earliest_max :: "searcher \<Rightarrow> string \<Rightarrow> DocumentType \<Rightarrow> bool" where
  "earliest_max search text t \<longleftrightarrow>
     t \<in> set catalog_types
     \<and> (\<forall>u \<in> set catalog_types. type_score search text u \<le> type_score search text t)
     \<and> (\<forall>u \<in> set (takeWhile (\<lambda>u. u \<noteq> t) catalog_types).
           type_score search text u < type_score search text t)"

text \<open>The segments table detection works on; none when the detector gives none or fails.\<close>

definition detected_segments :: "world \<Rightarrow> string \<Rightarrow> segment list" where
  "detected_segments wd path =
     (case hough_lines wd path of Inr (Some lines) \<Rightarrow> lines | _ \<Rightarrow> [])"

text \<open>
  \<open>value\<close> is \<open>v\<close> without its leading and trailing whitespace: \<open>v\<close> is \<open>value\<close> between two
  runs of whitespace, and \<open>value\<close> neither starts nor ends with whitespace.
\<close>

definition trimmed_of :: "string \<Rightarrow> string \<Rightarrow> bool" where
  "trimmed_of v value \<longleftrightarrow>
     (\<exists>pre post. v = pre @ value @ post
        \<and> (\<forall>c \<in> set pre. is_space c) \<and> (\<forall>c \<in> set post. is_space c)
        \<and> (value \<noteq> [] \<longrightarrow> \<not> is_space (hd value) \<and> \<not> is_space (last value)))"

text \<open>
  Whenever a field pattern matches, the value the code strips is a string: the first group
  took part in the match. Each pattern of the field catalog has exactly one group and
  that group is mandatory, so \<open>re.search\<close> satisfies this.
\<close>

definition groups_participate :: "searcher \<Rightarrow> bool" where
  "groups_participate search \<longleftrightarrow>
     (\<forall>(f, p) \<in> set field_patterns. \<forall>t m. search p t = Some m \<longrightarrow> match_value m \<noteq> None)"

section \<open>Concrete inputs\<close>

text \<open>
  Two words on two lines of a 600 x 800 page: \<open>Total\<close> at left 100, top 10, 50 x 10, and
  \<open>Page\<close> at left 0, top 700, 20 x 10.
\<close>

definition sample_words :: ocr_data where
  "sample_words =
     \<lparr>ocr_text = [''Total'', ''Page''], ocr_top = [10, 700], ocr_left = [100, 0],
      ocr_width = [50, 20], ocr_height = [10, 10], ocr_conf = [90, 80]\<rparr>"

definition sample_page :: DocumentLayout where
  "sample_page = empty_layout\<lparr>page_width := 600, page_height := 800\<rparr>"

text \<open>Three horizontal and three vertical segments.\<close>

definition sample_segments :: "segment list" where
  "sample_segments =
     [(0, 0, 100, 0), (0, 50, 100, 50), (0, 100, 100, 100),
      (0, 0, 0, 100), (50, 0, 50, 100), (100, 0, 100, 100)]"

definition sample_world :: world where
  "sample_world =
     \<lparr>vision_available = True,
      image_open = (\<lambda>path. Inr (600, 800)),
      image_to_data = (\<lambda>path. Inr sample_words),
      imread = (\<lambda>path. Inr (Some (800, 600))),
      hough_lines = (\<lambda>path. Inr (Some sample_segments)),
      time_start = 0, time_end = 1, timestamp = ''2025-01-01T00:00:00''\<rparr>"

text \<open>A path that neither PIL nor OpenCV can read.\<close>

definition missing_file_world :: world where
  "missing_file_world =
     \<lparr>vision_available = True,
      image_open = (\<lambda>path. Inl (OSError ''No such file or directory'')),
      image_to_data = (\<lambda>path. Inl (OSError ''No such file or directory'')),
      imread = (\<lambda>path. Inr None),
      hough_lines = (\<lambda>path. Inl TypeError),
      time_start = 0, time_end = 1, timestamp = ''2025-01-01T00:00:00''\<rparr>"

text \<open>
  What \<open>re.search(pattern, text, re.IGNORECASE)\<close> returns for the catalog patterns on the
  texts \<open>whereas\<close>, \<open>total date\<close> and \<open>to: john doe\<close> followed by two blanks (where the
  recipient group captures the name with both blanks); no catalog pattern matches
  \<open>!!@@##$$%%\<close> or the empty text. On any other text the table is silent.
\<close>

definition sample_search :: searcher where
  "sample_search pattern text =
     (if text = ''whereas'' \<and> pattern = ''whereas''
        then Some \<lparr>group0 = ''whereas'', groups = []\<rparr>
      else if text = ''total date'' \<and> pattern = ''total|amount.*paid''
        then Some \<lparr>group0 = ''total'', groups = []\<rparr>
      else if text = ''total date'' \<and> pattern = ''prepared'' @ bsl @ ''s*by|date''
        then Some \<lparr>group0 = ''date'', groups = []\<rparr>
      else if text = ''total date''
            \<and> pattern = ''(?:to|bill'' @ bsl @ ''s*to|ship'' @ bsl @ ''s*to)'' @ bsl
                  @ ''s*[:=]?'' @ bsl @ ''s*([A-Za-z'' @ bsl @ ''s]+)''
        then Some \<lparr>group0 = ''total date'', groups = [Some ''tal date'']\<rparr>
      else if text = ''to: john doe  ''
            \<and> pattern = ''(?:to|bill'' @ bsl @ ''s*to|ship'' @ bsl @ ''s*to)'' @ bsl
                  @ ''s*[:=]?'' @ bsl @ ''s*([A-Za-z'' @ bsl @ ''s]+)''
        then Some \<lparr>group0 = ''to: john doe  '', groups = [Some ''john doe  '']\<rparr>
      else None)"

section \<open>Layout segmentation\<close>

lemma append_line_inj: "append_line r line lay = append_line r' line lay \<Longrightarrow> r = r'"
proof -
  assume eq: "append_line r line lay = append_line r' line lay"
  from eq have h: "header (append_line r line lay) = header (append_line r' line lay)" by simp
  from eq have b: "body (append_line r line lay) = body (append_line r' line lay)" by simp
  from eq have f: "footer (append_line r line lay) = footer (append_line r' line lay)" by simp
  from h b f show ?thesis
    by (cases r; cases r') (simp_all add: append_line_def)
qed

lemma finalize_as_append:
  "finalize_text_line lay t ws bb =
     append_line
       (if (of_int (tup1 bb) :: rat) < of_int (page_height lay) / 3 then Header
        else if (of_int (tup1 bb) :: rat) > of_int (page_height lay * 2) / 3 then Footer
        else Body)
       (mk_line t ws bb) lay"
  by (simp add: finalize_text_line_def append_line_def Let_def)

text \<open>
  C4. For a page height \<open>H\<close> with \<open>0 < H < 2^52\<close> and a finalized line whose bounding box has
  top \<open>y\<close>, the line is appended to the header iff \<open>y < H/3\<close>, to the footer iff \<open>y > 2H/3\<close>,
  and to the body otherwise; it is appended to exactly one of the three regions. The bound
  is the range in which the double thresholds of the source separate the integers as
  \<open>H/3\<close> and \<open>2H/3\<close> do; the height of an image lies far below it.
\<close>

theorem finalize_partition:
  assumes "0 < page_height lay" and "page_height lay < 2 ^ 52"
  shows "(finalize_text_line lay t ws bb = append_line Header (mk_line t ws bb) lay
            \<longleftrightarrow> (of_int (tup1 bb) :: rat) < of_int (page_height lay) / 3)
       \<and> (finalize_text_line lay t ws bb = append_line Footer (mk_line t ws bb) lay
            \<longleftrightarrow> (of_int (tup1 bb) :: rat) > 2 * of_int (page_height lay) / 3)
       \<and> (finalize_text_line lay t ws bb = append_line Body (mk_line t ws bb) lay
            \<longleftrightarrow> \<not> (of_int (tup1 bb) :: rat) < of_int (page_height lay) / 3
              \<and> \<not> (of_int (tup1 bb) :: rat) > 2 * of_int (page_height lay) / 3)
       \<and> (\<exists>!r. finalize_text_line lay t ws bb = append_line r (mk_line t ws bb) lay)"
proof -
  let ?y = "of_int (tup1 bb) :: rat"
  let ?H = "of_int (page_height lay) :: rat"
  have Hpos: "0 < ?H" using assms by simp
  have lt: "?y < ?H / 3 \<Longrightarrow> \<not> ?y > 2 * ?H / 3" using Hpos by simp
  have two: "(of_int (page_height lay * 2) :: rat) = 2 * ?H" by simp
  show ?thesis
    unfolding finalize_as_append two
    using lt by (auto dest: append_line_inj)
qed

text \<open>The header test of the repository's test suite: top 50 on a page of height 1500.\<close>

theorem finalize_partition_witness:
  "finalize_text_line (empty_layout\<lparr>page_height := 1500\<rparr>) ''Header''
       [mk_Word ''Header'' (95 / 100) (0, 50, 100, 20)] (0, 50, 100, 20)
     = append_line Header (mk_line ''Header'' [mk_Word ''Header'' (95 / 100) (0, 50, 100, 20)]
         (0, 50, 100, 20)) (empty_layout\<lparr>page_height := 1500\<rparr>)"
  using finalize_partition [of "empty_layout\<lparr>page_height := 1500\<rparr>" "''Header''"
      "[mk_Word ''Header'' (95 / 100) (0, 50, 100, 20)]" "(0, 50, 100, 20)"]
  by simp

text \<open>
  C1, as the code has it. For a page height of 0 both thresholds are 0: a finalized line is
  appended to the body exactly when the top of its bounding box is 0, to the footer when the
  top is positive, and to the header when it is negative.
\<close>

theorem zero_height_regions:
  assumes "page_height lay = 0"
  shows "(finalize_text_line lay t ws bb = append_line Body (mk_line t ws bb) lay \<longleftrightarrow> tup1 bb = 0)
       \<and> (finalize_text_line lay t ws bb = append_line Footer (mk_line t ws bb) lay \<longleftrightarrow> 0 < tup1 bb)
       \<and> (finalize_text_line lay t ws bb = append_line Header (mk_line t ws bb) lay \<longleftrightarrow> tup1 bb < 0)"
  unfolding finalize_as_append using assms
  by (auto dest: append_line_inj)

theorem zero_height_regions_witness:
  "finalize_text_line empty_layout ''Total'' [] (100, 10, 50, 10)
     = append_line Footer (mk_line ''Total'' [] (100, 10, 50, 10)) empty_layout"
  using zero_height_regions [of empty_layout "''Total''" "[]" "(100, 10, 50, 10)"]
  by (simp add: empty_layout_def)

text \<open>
  C1 as stated fails: on a layout of page height 0, a line whose top is 10 goes to the
  footer and the body stays empty.
\<close>

theorem zero_height_footer:
  "page_height empty_layout = 0
   \<and> body (finalize_text_line empty_layout ''Total'' [mk_Word ''Total'' (9 / 10) (100, 10, 50, 10)]
             (100, 10, 50, 10)) = []
   \<and> map line_text (footer (finalize_text_line empty_layout ''Total''
             [mk_Word ''Total'' (9 / 10) (100, 10, 50, 10)] (100, 10, 50, 10))) = [''Total'']"
  by (simp add: empty_layout_def finalize_text_line_def mk_line_def)

section \<open>Line grouping\<close>

text \<open>
  C2. The words \<open>Total\<close> (top 10) and \<open>Page\<close> (top 700) form two lines of one word each.
  The box of the first line is the word's \<open>(x, y, w, h)\<close>, not \<open>(x, y, x + w, y + h)\<close>; the box
  of the second line is \<open>(0, 10, 50, 710)\<close>, where the claim asks for \<open>(0, 700, 20, 710)\<close>: the
  running box is not reset when a line is finalized, so the top and the right edge of
  \<open>Total\<close> remain in the box of \<open>Page\<close>, and the line lands in the header instead of the footer.
\<close>

theorem bbox_leaks_across_lines:
  "map line_text (header (group_lines sample_page sample_words)) = [''Total'', ''Page'']
   \<and> map (map word_bbox \<circ> line_words) (header (group_lines sample_page sample_words))
       = [[(100, 10, 50, 10)], [(0, 700, 20, 10)]]
   \<and> map line_bbox (header (group_lines sample_page sample_words))
       = [(100, 10, 50, 10), (0, 10, 50, 710)]
   \<and> body (group_lines sample_page sample_words) = []
   \<and> footer (group_lines sample_page sample_words) = []"
  by (simp add: group_lines_def sample_page_def sample_words_def empty_layout_def init_acc_def
      enumerate_eq_zip loop_body_def strip_def is_space_def list_get_def place_word_def
      finalize_text_line_def mk_line_def mk_Word_def finish_lines_def Let_def)

section \<open>Classification\<close>

lemma catalog_types_eq:
  "catalog_types = [INVOICE, RECEIPT, CONTRACT, FORM, LETTER, REPORT]"
  by (simp add: catalog_types_def doc_type_patterns_def)

lemma catalog_keys_distinct: "distinct (map fst doc_type_patterns)"
  by (simp add: doc_type_patterns_def)

lemma catalog_sizes: "map (\<lambda>t. length (patterns_of t)) catalog_types = [5, 5, 6, 5, 4, 5]"
  by (simp add: catalog_types_eq patterns_of_def doc_type_patterns_def)

lemma catalog_patterns_distinct: "list_all (\<lambda>t. distinct (patterns_of t)) catalog_types"
  by (simp add: catalog_types_eq patterns_of_def doc_type_patterns_def)

lemma patterns_of_entry:
  assumes "(t, ps) \<in> set doc_type_patterns"
  shows "patterns_of t = ps"
  using assms catalog_keys_distinct by (simp add: patterns_of_def)

lemma count_matches_card:
  assumes "distinct ps"
  shows "count_matches search txt ps = card {p \<in> set ps. search p txt \<noteq> None}"
proof -
  let ?P = "\<lambda>p. search p txt \<noteq> None"
  have "distinct (filter ?P ps)" using assms by simp
  then have "card (set (filter ?P ps)) = length (filter ?P ps)" by (rule distinct_card)
  moreover have "set (filter ?P ps) = {p \<in> set ps. ?P p}" by (rule set_filter)
  ultimately show ?thesis unfolding count_matches_def by (simp only:)
qed

lemma compute_scores_map:
  assumes "\<forall>(t, ps) \<in> set cat. ps \<noteq> []"
  shows "compute_scores search txt cat =
           Inr (map (\<lambda>(t, ps). (t, of_nat (count_matches search txt ps) / of_nat (length ps))) cat)"
  using assms
proof (induction cat)
  case Nil
  then show ?case by simp
next
  case (Cons a cat)
  obtain t ps where a: "a = (t, ps)" by (cases a)
  from Cons.prems a have ne: "ps \<noteq> []" by simp
  from Cons.prems have rest: "\<forall>(t, ps) \<in> set cat. ps \<noteq> []" by simp
  show ?case
    using Cons.IH [OF rest] ne by (simp add: a score_of_def)
qed

lemma catalog_nonempty: "\<forall>(t, ps) \<in> set doc_type_patterns. ps \<noteq> []"
  by (simp add: doc_type_patterns_def)

lemma catalog_distinct_entry:
  assumes "(t, ps) \<in> set doc_type_patterns"
  shows "distinct ps"
proof -
  from assms have "t \<in> set catalog_types" by (force simp: catalog_types_def)
  with catalog_patterns_distinct have "distinct (patterns_of t)"
    by (simp add: list_all_iff)
  with patterns_of_entry [OF assms] show ?thesis by simp
qed

lemma compute_scores_catalog:
  "compute_scores search (lower text) doc_type_patterns = Inr (score_list search text)"
proof -
  have "map (\<lambda>(t, ps). (t, (of_nat (count_matches search (lower text) ps) :: rat) / of_nat (length ps)))
          doc_type_patterns
        = map (\<lambda>(t, ps). (t, type_score search text t)) doc_type_patterns"
  proof (rule map_cong [OF refl])
    fix a assume a: "a \<in> set doc_type_patterns"
    obtain t ps where tp: "a = (t, ps)" by (cases a)
    from a tp have mem: "(t, ps) \<in> set doc_type_patterns" by simp
    show "(case a of (t, ps) \<Rightarrow> (t, (of_nat (count_matches search (lower text) ps) :: rat) / of_nat (length ps)))
          = (case a of (t, ps) \<Rightarrow> (t, type_score search text t))"
      using count_matches_card [OF catalog_distinct_entry [OF mem]] patterns_of_entry [OF mem]
      by (simp add: tp type_score_def)
  qed
  also have "\<dots> = score_list search text"
    by (simp add: score_list_def catalog_types_def case_prod_beta comp_def)
  finally show ?thesis
    using compute_scores_map [OF catalog_nonempty] by simp
qed

lemma max_loop_keep:
  assumes "\<forall>z \<in> set zs. snd z \<le> snd r"
  shows "max_loop r zs = r"
  using assms by (induction zs) auto

lemma max_loop_reach:
  assumes "snd b < snd r" "\<forall>y \<in> set ys. snd y < snd r" "\<forall>z \<in> set zs. snd z \<le> snd r"
  shows "max_loop b (ys @ r # zs) = r"
  using assms
proof (induction ys arbitrary: b)
  case Nil
  then show ?case by (simp add: max_loop_keep)
next
  case (Cons y ys)
  let ?b = "if snd y > snd b then y else b"
  from Cons.prems have "snd ?b < snd r" by simp
  moreover from Cons.prems have "\<forall>y \<in> set ys. snd y < snd r" by simp
  ultimately have "max_loop ?b (ys @ r # zs) = r"
    using Cons.IH Cons.prems(3) by blast
  then show ?case by simp
qed

lemma max_loop_snd: "snd (max_loop b xs) = Max (snd ` set (b # xs))"
proof (induction xs arbitrary: b)
  case Nil
  then show ?case by simp
next
  case (Cons x xs)
  have "snd (max_loop b (x # xs)) = Max (snd ` set ((if snd x > snd b then x else b) # xs))"
    using Cons.IH by simp
  also have "\<dots> = Max (snd ` set (b # x # xs))"
  proof (cases "snd x > snd b")
    case True
    then have "max (snd b) (snd x) = snd x" by simp
    then show ?thesis
      by (cases "xs = []") (simp_all add: True max.assoc [symmetric])
  next
    case False
    then have "max (snd b) (snd x) = snd b" by simp
    then show ?thesis
      by (cases "xs = []") (simp_all add: False max.assoc [symmetric])
  qed
  finally show ?case .
qed

lemma score_list_cons:
  "score_list search text =
     (INVOICE, type_score search text INVOICE)
       # map (\<lambda>t. (t, type_score search text t)) [RECEIPT, CONTRACT, FORM, LETTER, REPORT]"
  by (simp add: score_list_def catalog_types_eq)

lemma classify_unfold:
  "classify_document_type search text =
     (case py_max (score_list search text) of
        Inl e \<Rightarrow> Inl e
      | Inr (best_type, confidence) \<Rightarrow>
          if confidence < 2 / 10 then Inr (UNKNOWN, confidence) else Inr (best_type, confidence))"
  by (simp add: classify_document_type_def compute_scores_catalog)

lemma py_max_score_list:
  "\<exists>t. py_max (score_list search text) = Inr (t, max_score search text)"
proof -
  let ?f = "\<lambda>t. (t, type_score search text t)"
  let ?r = "max_loop (?f INVOICE) (map ?f [RECEIPT, CONTRACT, FORM, LETTER, REPORT])"
  have "snd ?r = Max (snd ` set (score_list search text))"
    unfolding score_list_cons by (rule max_loop_snd)
  also have "snd ` set (score_list search text) = type_score search text ` set catalog_types"
    by (simp add: score_list_def image_image)
  finally have "snd ?r = max_score search text" by (simp add: max_score_def)
  moreover have "py_max (score_list search text) = Inr ?r"
    unfolding score_list_cons by simp
  ultimately show ?thesis by (metis prod.collapse)
qed

lemma py_max_earliest:
  assumes "earliest_max search text t"
  shows "py_max (score_list search text) = Inr (t, type_score search text t)"
proof -
  let ?f = "\<lambda>t. (t, type_score search text t)"
  from assms have mem: "t \<in> set catalog_types"
    and le: "\<forall>u \<in> set catalog_types. type_score search text u \<le> type_score search text t"
    and lt: "\<forall>u \<in> set (takeWhile (\<lambda>u. u \<noteq> t) catalog_types).
               type_score search text u < type_score search text t"
    by (simp_all add: earliest_max_def)
  from split_list_first [OF mem] obtain ys zs
    where split: "catalog_types = ys @ t # zs" and fresh: "t \<notin> set ys" by blast
  have "takeWhile (\<lambda>u. u \<noteq> t) (ys @ t # zs) = ys @ takeWhile (\<lambda>u. u \<noteq> t) (t # zs)"
    by (rule takeWhile_append2) (use fresh in auto)
  then have tw: "takeWhile (\<lambda>u. u \<noteq> t) catalog_types = ys" by (simp add: split)
  have before: "\<forall>y \<in> set (map ?f ys). snd y < snd (?f t)" using lt tw by simp
  have after: "\<forall>z \<in> set (map ?f zs). snd z \<le> snd (?f t)"
    using le unfolding split by simp
  have sl: "score_list search text = map ?f ys @ ?f t # map ?f zs"
    by (simp add: score_list_def split)
  show ?thesis
  proof (cases ys)
    case Nil
    then show ?thesis using max_loop_keep [OF after] by (simp add: sl)
  next
    case (Cons b ys')
    from before Cons have b: "snd (?f b) < snd (?f t)"
      and rest: "\<forall>y \<in> set (map ?f ys'). snd y < snd (?f t)" by simp_all
    have "max_loop (?f b) (map ?f ys' @ ?f t # map ?f zs) = ?f t"
      by (rule max_loop_reach [OF b rest after])
    then show ?thesis by (simp add: sl Cons)
  qed
qed

lemma exists_earliest:
  fixes g :: "'a \<Rightarrow> rat"
  assumes "xs \<noteq> []"
  shows "\<exists>t \<in> set xs. (\<forall>u \<in> set xs. g u \<le> g t)
           \<and> (\<forall>u \<in> set (takeWhile (\<lambda>u. u \<noteq> t) xs). g u < g t)"
  using assms
proof (induction xs)
  case Nil
  then show ?case by simp
next
  case (Cons a xs)
  show ?case
  proof (cases "xs = []")
    case True
    then show ?thesis by simp
  next
    case False
    from Cons.IH [OF False] obtain t where t: "t \<in> set xs"
      and le: "\<forall>u \<in> set xs. g u \<le> g t"
      and lt: "\<forall>u \<in> set (takeWhile (\<lambda>u. u \<noteq> t) xs). g u < g t" by blast
    show ?thesis
    proof (cases "g t \<le> g a")
      case True
      with le have "\<forall>u \<in> set (a # xs). g u \<le> g a" by auto
      then show ?thesis by (intro bexI [of _ a]) simp_all
    next
      case False
      then have "a \<noteq> t" by auto
      with False le lt t show ?thesis by (intro bexI [of _ t]) auto
    qed
  qed
qed

lemma type_score_count:
  assumes "t \<in> set catalog_types"
  shows "type_score search text t =
           of_nat (count_matches search (lower text) (patterns_of t)) / of_nat (length (patterns_of t))"
proof -
  from assms catalog_patterns_distinct have "distinct (patterns_of t)"
    by (simp add: list_all_iff)
  from count_matches_card [OF this] show ?thesis by (simp add: type_score_def)
qed

lemma lower_Whereas: "lower ''Whereas'' = ''whereas''"
  by code_simp

lemma lower_Total_Date: "lower ''Total Date'' = ''total date''"
  by code_simp

lemma sample_scores_Whereas:
  "map (type_score sample_search ''Whereas'') [INVOICE, RECEIPT, CONTRACT, FORM, LETTER, REPORT]
     = [0, 0, 1 / 6, 0, 0, 0]"
  by (simp add: type_score_count catalog_types_eq lower_Whereas count_matches_def patterns_of_def
      doc_type_patterns_def sample_search_def)

lemma sample_scores_Total_Date:
  "map (type_score sample_search ''Total Date'') [INVOICE, RECEIPT, CONTRACT, FORM, LETTER, REPORT]
     = [0, 1 / 5, 0, 0, 0, 1 / 5]"
  by (simp add: type_score_count catalog_types_eq lower_Total_Date count_matches_def patterns_of_def
      doc_type_patterns_def sample_search_def)

lemma type_score_bounds: "0 \<le> type_score search text t \<and> type_score search text t \<le> 1"
proof -
  let ?A = "{p \<in> set (patterns_of t). search p (lower text) \<noteq> None}"
  have "card ?A \<le> card (set (patterns_of t))" by (rule card_mono) auto
  also have "\<dots> \<le> length (patterns_of t)" by (rule card_length)
  finally have "(of_nat (card ?A) :: rat) \<le> of_nat (length (patterns_of t))" by simp
  then show ?thesis
    by (simp add: type_score_def divide_le_eq_1)
qed

lemma known_type_in_catalog: "t \<noteq> UNKNOWN \<Longrightarrow> t \<in> set catalog_types"
  by (cases t) (simp_all add: catalog_types_eq)

lemma map_of_graph:
  "map_of (map (\<lambda>k. (k, f k)) xs) t = (if t \<in> set xs then Some (f t) else None)"
  by (induction xs) simp_all

lemma map_of_score_list:
  assumes "t \<in> set catalog_types"
  shows "map_of (score_list search text) t = Some (type_score search text t)"
  using assms by (simp add: score_list_def map_of_graph)

text \<open>
  C3, as the code has it. The catalogs of invoice, receipt, contract, form, letter and
  report hold 5, 5, 6, 5, 4 and 5 patterns. For every text and every type other than
  unknown, the score computed for the type is the number of its patterns found in the
  lowercased text divided by the number of its patterns, a value between 0 and 1.
\<close>

theorem score_is_match_fraction:
  "map (\<lambda>t. length (patterns_of t)) catalog_types = [5, 5, 6, 5, 4, 5]
   \<and> (\<exists>scores. compute_scores search (lower text) doc_type_patterns = Inr scores
         \<and> (\<forall>t. t \<noteq> UNKNOWN \<longrightarrow>
               map_of scores t =
                 Some (of_nat (card {p \<in> set (patterns_of t). search p (lower text) \<noteq> None})
                         / of_nat (length (patterns_of t)))
               \<and> 0 \<le> type_score search text t \<and> type_score search text t \<le> 1))"
proof (intro conjI exI allI impI)
  show "map (\<lambda>t. length (patterns_of t)) catalog_types = [5, 5, 6, 5, 4, 5]"
    by (rule catalog_sizes)
  show "compute_scores search (lower text) doc_type_patterns = Inr (score_list search text)"
    by (rule compute_scores_catalog)
  fix t :: DocumentType assume "t \<noteq> UNKNOWN"
  then have "t \<in> set catalog_types" by (rule known_type_in_catalog)
  then show "map_of (score_list search text) t =
               Some (of_nat (card {p \<in> set (patterns_of t). search p (lower text) \<noteq> None})
                       / of_nat (length (patterns_of t)))"
    using map_of_score_list by (simp add: type_score_def)
  show "0 \<le> type_score search text t" "type_score search text t \<le> 1"
    using type_score_bounds by simp_all
qed

theorem score_is_match_fraction_witness:
  "\<exists>scores. compute_scores sample_search (lower ''Whereas'') doc_type_patterns = Inr scores
      \<and> map_of scores CONTRACT = Some (1 / 6)"
proof -
  have c: "type_score sample_search ''Whereas'' CONTRACT = 1 / 6"
    using sample_scores_Whereas by simp
  from score_is_match_fraction [of sample_search "''Whereas''"] obtain scores
    where cs: "compute_scores sample_search (lower ''Whereas'') doc_type_patterns = Inr scores"
      and all: "\<forall>t. t \<noteq> UNKNOWN \<longrightarrow>
               map_of scores t =
                 Some (of_nat (card {p \<in> set (patterns_of t).
                                   sample_search p (lower ''Whereas'') \<noteq> None})
                         / of_nat (length (patterns_of t)))
               \<and> 0 \<le> type_score sample_search ''Whereas'' t
               \<and> type_score sample_search ''Whereas'' t \<le> 1"
    by blast
  from all have "map_of scores CONTRACT = Some (type_score sample_search ''Whereas'' CONTRACT)"
    unfolding type_score_def by simp
  with cs c show ?thesis by simp
qed

text \<open>
  C3 as stated fails: the contract catalog has 6 patterns and the letter catalog 4.
\<close>

theorem contract_has_six_patterns:
  "length (patterns_of CONTRACT) = 6 \<and> length (patterns_of LETTER) = 4"
  by (simp add: patterns_of_def doc_type_patterns_def)

text \<open>
  C5. If the largest score is strictly below 0.2, classification returns unknown together
  with that score; when no pattern of any type is found, it returns unknown with
  confidence 0.
\<close>

theorem classify_below_threshold:
  "(max_score search text < 2 / 10
      \<longrightarrow> classify_document_type search text = Inr (UNKNOWN, max_score search text))
   \<and> ((\<forall>t \<in> set catalog_types. \<forall>p \<in> set (patterns_of t). search p (lower text) = None)
      \<longrightarrow> classify_document_type search text = Inr (UNKNOWN, 0))"
proof (intro conjI impI)
  obtain t where pm: "py_max (score_list search text) = Inr (t, max_score search text)"
    using py_max_score_list by blast
  {
    assume "max_score search text < 2 / 10"
    then show "classify_document_type search text = Inr (UNKNOWN, max_score search text)"
      by (simp add: classify_unfold pm)
  next
    assume none: "\<forall>t \<in> set catalog_types. \<forall>p \<in> set (patterns_of t). search p (lower text) = None"
    have "type_score search text u = 0" if "u \<in> set catalog_types" for u
    proof -
      from none that have "{p \<in> set (patterns_of u). search p (lower text) \<noteq> None} = {}" by auto
      then show ?thesis by (simp add: type_score_def)
    qed
    then have "type_score search text ` set catalog_types = {0}"
      by (auto simp: catalog_types_eq)
    then have "max_score search text = 0" by (simp add: max_score_def)
    then show "classify_document_type search text = Inr (UNKNOWN, 0)"
      using pm by (simp add: classify_unfold)
  }
qed

text \<open>
  On \<open>Whereas\<close> one of the six contract patterns is found and nothing else; on
  \<open>!!@@##$$%%\<close> (a text of the repository's tests) nothing is.
\<close>

theorem classify_below_threshold_witness:
  "classify_document_type sample_search ''Whereas'' = Inr (UNKNOWN, 1 / 6)
   \<and> classify_document_type sample_search ''!!@@##$$%%'' = Inr (UNKNOWN, 0)"
proof -
  have "max_score sample_search ''Whereas'' = Max (set [0, 0, 1 / 6, 0, 0, 0])"
    unfolding max_score_def catalog_types_eq sample_scores_Whereas [symmetric] by simp
  then have m: "max_score sample_search ''Whereas'' = 1 / 6" by simp
  have none: "\<forall>t \<in> set catalog_types. \<forall>p \<in> set (patterns_of t).
                sample_search p (lower ''!!@@##$$%%'') = None"
    by (simp add: sample_search_def lower_def lower_char_def)
  show ?thesis
    using classify_below_threshold [of sample_search "''Whereas''"]
      classify_below_threshold [of sample_search "''!!@@##$$%%''"] m none
    by simp
qed

text \<open>
  C9. Classification is a function of the text. The types are scored in the order invoice,
  receipt, contract, form, letter, report; some type has the largest score with every
  earlier type strictly below it, and that type is the one selected (and returned, unless
  its score is below 0.2).
\<close>

theorem classify_tie_break:
  "catalog_types = [INVOICE, RECEIPT, CONTRACT, FORM, LETTER, REPORT]
   \<and> (\<exists>t. earliest_max search text t)
   \<and> (\<forall>t. earliest_max search text t \<longrightarrow>
         classify_document_type search text =
           Inr (if type_score search text t < 2 / 10 then UNKNOWN else t,
                type_score search text t))"
proof (intro conjI allI impI)
  show "catalog_types = [INVOICE, RECEIPT, CONTRACT, FORM, LETTER, REPORT]"
    by (rule catalog_types_eq)
  have "catalog_types \<noteq> []" by (simp add: catalog_types_eq)
  from exists_earliest [OF this, of "type_score search text"]
  show "\<exists>t. earliest_max search text t" unfolding earliest_max_def by blast
  fix t assume "earliest_max search text t"
  from py_max_earliest [OF this]
  show "classify_document_type search text =
          Inr (if type_score search text t < 2 / 10 then UNKNOWN else t, type_score search text t)"
    by (simp add: classify_unfold)
qed

text \<open>On \<open>Total Date\<close> receipt and report tie at 1/5; receipt comes first.\<close>

theorem classify_tie_break_witness:
  "classify_document_type sample_search ''Total Date'' = Inr (RECEIPT, 1 / 5)"
proof -
  have sc: "type_score sample_search ''Total Date'' INVOICE = 0"
    "type_score sample_search ''Total Date'' RECEIPT = 1 / 5"
    "type_score sample_search ''Total Date'' CONTRACT = 0"
    "type_score sample_search ''Total Date'' FORM = 0"
    "type_score sample_search ''Total Date'' LETTER = 0"
    "type_score sample_search ''Total Date'' REPORT = 1 / 5"
    using sample_scores_Total_Date by simp_all
  have "earliest_max sample_search ''Total Date'' RECEIPT"
    by (simp add: earliest_max_def catalog_types_eq sc)
  with classify_tie_break [of sample_search "''Total Date''"] show ?thesis
    by (simp add: sc)
qed

section \<open>Table detection\<close>

text \<open>
  C6. When the image is read, table detection appends exactly one table iff more than two
  horizontal and more than two vertical segments were detected: its rows and columns are
  the two counts minus one, its grid has that shape and holds empty strings, its box is the
  whole image and its confidence 0.7. Otherwise it appends nothing.
\<close>

theorem detect_tables_emits:
  assumes "vision_available wd" and "imread wd path = Inr (Some shape)"
  shows "tables (detect_tables wd path lay) =
           tables lay @
             (if 2 < length (h_lines_of (detected_segments wd path))
                 \<and> 2 < length (v_lines_of (detected_segments wd path))
              then [\<lparr>rows = int (length (h_lines_of (detected_segments wd path))) - 1,
                     cols = int (length (v_lines_of (detected_segments wd path))) - 1,
                     cells = replicate (length (h_lines_of (detected_segments wd path)) - 1)
                               (replicate (length (v_lines_of (detected_segments wd path)) - 1) ''''),
                     table_bbox = (0, 0, snd shape, fst shape),
                     table_confidence = 7 / 10\<rparr>]
              else [])"
proof -
  have n: "nat (int k - 1) = k - 1" for k by simp
  have e: "h_lines_of [] = []" "v_lines_of [] = []"
    by (simp_all add: h_lines_of_def v_lines_of_def)
  show ?thesis
    using assms
    by (simp add: detect_tables_def detected_segments_def mk_table_def n e Let_def
        split: sum.splits option.splits)
qed

theorem detect_tables_emits_witness:
  "tables (detect_tables sample_world ''page.png'' empty_layout) =
     [\<lparr>rows = 2, cols = 2, cells = [['''', ''''], ['''', '''']],
       table_bbox = (0, 0, 600, 800), table_confidence = 7 / 10\<rparr>]"
proof -
  have v: "vision_available sample_world" by (simp add: sample_world_def)
  have r: "imread sample_world ''page.png'' = Inr (Some (800, 600))" by (simp add: sample_world_def)
  have s: "detected_segments sample_world ''page.png'' = sample_segments"
    by (simp add: detected_segments_def sample_world_def)
  have h: "length (h_lines_of sample_segments) = 3" by (simp add: h_lines_of_def sample_segments_def)
  have vl: "length (v_lines_of sample_segments) = 3" by (simp add: v_lines_of_def sample_segments_def)
  have e: "tables empty_layout = []" by (simp add: empty_layout_def)
  show ?thesis
    using detect_tables_emits [OF v r, of empty_layout]
    by (simp add: s h vl e numeral_2_eq_2)
qed

text \<open>
  C10. A segment whose endpoints differ by less than 5 both vertically and horizontally is
  in the horizontal list and in the vertical list: it adds one to each count, and so one to
  the rows and one to the columns of an emitted table.
\<close>

theorem small_segment_counted_twice:
  assumes "\<bar>tup1 l - tup3 l\<bar> < 5" and "\<bar>tup0 l - tup2 l\<bar> < 5"
  shows "l \<in> set (h_lines_of (xs @ l # ys)) \<and> l \<in> set (v_lines_of (xs @ l # ys))
       \<and> length (h_lines_of (xs @ l # ys)) = Suc (length (h_lines_of (xs @ ys)))
       \<and> length (v_lines_of (xs @ l # ys)) = Suc (length (v_lines_of (xs @ ys)))
       \<and> rows (mk_table (h_lines_of (xs @ l # ys)) (v_lines_of (xs @ l # ys)) shape)
           = rows (mk_table (h_lines_of (xs @ ys)) (v_lines_of (xs @ ys)) shape) + 1
       \<and> cols (mk_table (h_lines_of (xs @ l # ys)) (v_lines_of (xs @ l # ys)) shape)
           = cols (mk_table (h_lines_of (xs @ ys)) (v_lines_of (xs @ ys)) shape) + 1"
  using assms by (simp add: h_lines_of_def v_lines_of_def mk_table_def)

theorem small_segment_counted_twice_witness:
  "length (h_lines_of ((10, 10, 12, 13) # [(0, 0, 100, 0), (0, 50, 100, 50), (0, 0, 0, 100), (50, 0, 50, 100)])) = 3
   \<and> length (v_lines_of ((10, 10, 12, 13) # [(0, 0, 100, 0), (0, 50, 100, 50), (0, 0, 0, 100), (50, 0, 50, 100)])) = 3"
proof -
  have a: "\<bar>tup1 (10, 10, 12, 13) - tup3 (10, 10, 12, 13)\<bar> < 5" by simp
  have b: "\<bar>tup0 (10, 10, 12, 13) - tup2 (10, 10, 12, 13)\<bar> < 5" by simp
  have h: "length (h_lines_of [(0, 0, 100, 0), (0, 50, 100, 50), (0, 0, 0, 100), (50, 0, 50, 100)]) = 2"
    by (simp add: h_lines_of_def)
  have v: "length (v_lines_of [(0, 0, 100, 0), (0, 50, 100, 50), (0, 0, 0, 100), (50, 0, 50, 100)]) = 2"
    by (simp add: v_lines_of_def)
  show ?thesis
    using small_segment_counted_twice [OF a b, of "[]"
        "[(0, 0, 100, 0), (0, 50, 100, 50), (0, 0, 0, 100), (50, 0, 50, 100)]"] h v
    by simp
qed

section \<open>Field extraction\<close>

lemma field_names_distinct: "distinct (map fst field_patterns)"
  by (simp add: field_patterns_def)

lemma extract_loop_result:
  assumes "distinct (map fst fps)"
    and "\<forall>(f, p) \<in> set fps. \<forall>m. search p txt = Some m \<longrightarrow> match_value m \<noteq> None"
  shows "\<exists>flds. extract_loop search txt fps acc = Inr flds
           \<and> (\<forall>f. flds f =
                 (case map_of fps f of
                    None \<Rightarrow> acc f
                  | Some p \<Rightarrow>
                      (case search p txt of
                         None \<Rightarrow> acc f
                       | Some m \<Rightarrow> map_option (mk_field f) (match_value m))))"
  using assms
proof (induction fps arbitrary: acc)
  case Nil
  then show ?case by simp
next
  case (Cons a fps)
  obtain f0 p0 where a: "a = (f0, p0)" by (cases a)
  from Cons.prems a have d: "distinct (map fst fps)" and fresh: "f0 \<notin> fst ` set fps"
    by simp_all
  from Cons.prems(2) have rest:
    "\<forall>(f, p) \<in> set fps. \<forall>m. search p txt = Some m \<longrightarrow> match_value m \<noteq> None"
    by simp
  from fresh have nf: "map_of fps f0 = None" by (simp add: map_of_eq_None_iff)
  show ?case
  proof (cases "search p0 txt")
    case None
    from Cons.IH [OF d rest, of acc] obtain flds
      where r: "extract_loop search txt fps acc = Inr flds"
        and v: "\<forall>f. flds f =
                 (case map_of fps f of
                    None \<Rightarrow> acc f
                  | Some p \<Rightarrow>
                      (case search p txt of
                         None \<Rightarrow> acc f
                       | Some m \<Rightarrow> map_option (mk_field f) (match_value m)))"
      by blast
    show ?thesis
      using r v nf None by (auto simp: a split: option.splits)
  next
    case (Some m)
    with Cons.prems(2) a obtain v0 where mv: "match_value m = Some v0" by auto
    let ?acc = "acc(f0 \<mapsto> mk_field f0 v0)"
    from Cons.IH [OF d rest, of ?acc] obtain flds
      where r: "extract_loop search txt fps ?acc = Inr flds"
        and v: "\<forall>f. flds f =
                 (case map_of fps f of
                    None \<Rightarrow> ?acc f
                  | Some p \<Rightarrow>
                      (case search p txt of
                         None \<Rightarrow> ?acc f
                       | Some m \<Rightarrow> map_option (mk_field f) (match_value m)))"
      by blast
    show ?thesis
      using r v nf Some mv by (auto simp: a split: option.splits)
  qed
qed

lemma sample_search_participates:
  "sample_search p t = Some m \<Longrightarrow> match_value m \<noteq> None"
  by (auto simp: sample_search_def match_value_def split: if_splits)

lemma recipient_entry:
  "(''recipient'',
    ''(?:to|bill'' @ bsl @ ''s*to|ship'' @ bsl @ ''s*to)'' @ bsl @ ''s*[:=]?'' @ bsl
      @ ''s*([A-Za-z'' @ bsl @ ''s]+)'') \<in> set field_patterns"
  by (simp add: field_patterns_def)

lemma email_entry:
  "(''email'', ''([A-Za-z0-9._%+-]+@[A-Za-z0-9.-]+'' @ bsl @ ''.[A-Z|a-z]{2,})'')
     \<in> set field_patterns"
  by (simp add: field_patterns_def)

text \<open>\<open>strip\<close> removes exactly the whitespace at the two ends.\<close>

lemma strip_trims: "trimmed_of v (strip v)"
proof -
  let ?a = "takeWhile is_space v"
  let ?b = "dropWhile is_space v"
  let ?c = "rev (takeWhile is_space (rev ?b))"
  let ?d = "rev (dropWhile is_space (rev ?b))"
  have d: "strip v = ?d" by (simp add: strip_def)
  have b: "?b = ?d @ ?c"
  proof -
    have "?d @ ?c = rev (takeWhile is_space (rev ?b) @ dropWhile is_space (rev ?b))"
      by (simp only: rev_append)
    also have "\<dots> = rev (rev ?b)" by (simp only: takeWhile_dropWhile_id)
    also have "\<dots> = ?b" by (simp only: rev_rev_ident)
    finally show ?thesis by (rule sym)
  qed
  have "v = ?a @ ?b" by simp
  with b have v: "v = ?a @ ?d @ ?c" by simp
  have pre: "\<forall>c \<in> set ?a. is_space c" by (auto dest: set_takeWhileD)
  have post: "\<forall>c \<in> set ?c. is_space c" by (auto dest: set_takeWhileD)
  have ends: "\<not> is_space (hd ?d) \<and> \<not> is_space (last ?d)" if ne: "?d \<noteq> []"
  proof
    have "?b = [] \<Longrightarrow> ?d = []" by (simp only: rev.simps dropWhile.simps)
    with ne have bne: "?b \<noteq> []" by blast
    then have "\<not> is_space (hd ?b)" by (rule hd_dropWhile)
    moreover from b ne have "hd ?b = hd ?d" by (metis hd_append2)
    ultimately show "\<not> is_space (hd ?d)" by simp
    from ne have "dropWhile is_space (rev ?b) \<noteq> []" by simp
    then have "\<not> is_space (hd (dropWhile is_space (rev ?b)))" by (rule hd_dropWhile)
    moreover from ne have "last ?d = hd (dropWhile is_space (rev ?b))"
      by (simp add: last_rev)
    ultimately show "\<not> is_space (last ?d)" by simp
  qed
  show ?thesis
    unfolding trimmed_of_def d
    using v pre post ends by blast
qed

lemma lower_To_John_Doe: "lower ''To: John Doe  '' = ''to: john doe  ''"
  by code_simp

lemma strip_john_doe: "strip ''john doe  '' = ''john doe''"
  by (simp add: strip_def is_space_def)

text \<open>
  C7. For every text and every field of the catalog (the matcher giving a string for the
  first group of every match), the result contains the field iff the field's pattern is
  found in the lowercased text. A field that is present holds the first group of the match
  (the whole match when the pattern has no group) without its leading and trailing
  whitespace, confidence 0.85 and source \<open>regex\<close>; a field whose pattern is not found is
  absent from the map, and the map has no other keys.
\<close>

theorem extract_key_fields_result:
  assumes "\<forall>(f, p) \<in> set field_patterns.
             \<forall>m. search p (lower text) = Some m \<longrightarrow> match_value m \<noteq> None"
  shows "\<exists>flds. extract_key_fields search text lay = Inr flds
           \<and> dom flds \<subseteq> fst ` set field_patterns
           \<and> (\<forall>(f, p) \<in> set field_patterns.
                 (case search p (lower text) of
                    None \<Rightarrow> flds f = None
                  | Some m \<Rightarrow>
                      (\<exists>v value.
                          (if groups m = [] then v = group0 m else hd (groups m) = Some v)
                          \<and> trimmed_of v value \<and> value = strip v
                          \<and> flds f =
                              Some \<lparr>field_name = f, field_value = value,
                                    field_confidence = 85 / 100, field_source = ''regex''\<rparr>)))"
proof -
  have "\<exists>flds. extract_loop search (lower text) field_patterns Map.empty = Inr flds
           \<and> (\<forall>f. flds f =
                 (case map_of field_patterns f of
                    None \<Rightarrow> Map.empty f
                  | Some p \<Rightarrow>
                      (case search p (lower text) of
                         None \<Rightarrow> Map.empty f
                       | Some m \<Rightarrow> map_option (mk_field f) (match_value m))))"
    by (rule extract_loop_result [of field_patterns search "lower text" "Map.empty",
          OF field_names_distinct assms])
  then obtain flds
    where r: "extract_loop search (lower text) field_patterns Map.empty = Inr flds"
      and v: "\<forall>f. flds f =
                 (case map_of field_patterns f of
                    None \<Rightarrow> None
                  | Some p \<Rightarrow>
                      (case search p (lower text) of
                         None \<Rightarrow> None
                       | Some m \<Rightarrow> map_option (mk_field f) (match_value m)))"
    by blast
  have dom: "dom flds \<subseteq> fst ` set field_patterns"
  proof
    fix f assume "f \<in> dom flds"
    then have "flds f \<noteq> None" by auto
    with v have "map_of field_patterns f \<noteq> None" by (auto split: option.splits)
    then show "f \<in> fst ` set field_patterns" by (simp add: map_of_eq_None_iff)
  qed
  have each: "case search p (lower text) of
                None \<Rightarrow> flds f = None
              | Some m \<Rightarrow>
                  (\<exists>v value.
                      (if groups m = [] then v = group0 m else hd (groups m) = Some v)
                      \<and> trimmed_of v value \<and> value = strip v
                      \<and> flds f =
                          Some \<lparr>field_name = f, field_value = value,
                                field_confidence = 85 / 100, field_source = ''regex''\<rparr>)"
    if mem: "(f, p) \<in> set field_patterns" for f p
  proof -
    from mem field_names_distinct have mo: "map_of field_patterns f = Some p" by simp
    show ?thesis
    proof (cases "search p (lower text)")
      case None
      with v mo show ?thesis by simp
    next
      case (Some m)
      from assms mem have "\<forall>m. search p (lower text) = Some m \<longrightarrow> match_value m \<noteq> None"
        by blast
      with Some obtain v0 where mv: "match_value m = Some v0" by blast
      from v mo Some mv have fl: "flds f = Some (mk_field f v0)" by simp
      from mv have g: "if groups m = [] then v0 = group0 m else hd (groups m) = Some v0"
        by (auto simp: match_value_def split: if_splits)
      have tr: "trimmed_of v0 (strip v0)" by (rule strip_trims)
      have "\<exists>v value.
              (if groups m = [] then v = group0 m else hd (groups m) = Some v)
              \<and> trimmed_of v value \<and> value = strip v
              \<and> flds f =
                  Some \<lparr>field_name = f, field_value = value,
                        field_confidence = 85 / 100, field_source = ''regex''\<rparr>"
      proof (intro exI conjI)
        show "if groups m = [] then v0 = group0 m else hd (groups m) = Some v0" by (rule g)
        show "trimmed_of v0 (strip v0)" by (rule tr)
        show "strip v0 = strip v0" by (rule refl)
        show "flds f =
                Some \<lparr>field_name = f, field_value = strip v0,
                      field_confidence = 85 / 100, field_source = ''regex''\<rparr>"
          using fl by (simp add: mk_field_def)
      qed
      then show ?thesis by (simp only: Some option.case)
    qed
  qed
  show ?thesis
    unfolding extract_key_fields_def
  proof (intro exI conjI ballI)
    show "extract_loop search (lower text) field_patterns Map.empty = Inr flds" by (rule r)
    show "dom flds \<subseteq> fst ` set field_patterns" by (rule dom)
    fix x assume x: "x \<in> set field_patterns"
    obtain f p where fp: "x = (f, p)" by (cases x)
    from each [of f p] x fp
    show "case x of (f, p) \<Rightarrow>
            (case search p (lower text) of
               None \<Rightarrow> flds f = None
             | Some m \<Rightarrow>
                 (\<exists>v value.
                     (if groups m = [] then v = group0 m else hd (groups m) = Some v)
                     \<and> trimmed_of v value \<and> value = strip v
                     \<and> flds f =
                         Some \<lparr>field_name = f, field_value = value,
                               field_confidence = 85 / 100, field_source = ''regex''\<rparr>))"
      by (simp only: fp prod.case)
  qed
qed

text \<open>
  On \<open>To: John Doe\<close> followed by two blanks the recipient group captures \<open>john doe\<close> with
  the two blanks, and the field holds \<open>john doe\<close>; the email pattern finds nothing.
\<close>

theorem extract_key_fields_result_witness:
  "\<exists>flds. extract_key_fields sample_search ''To: John Doe  '' empty_layout = Inr flds
      \<and> flds ''recipient'' =
          Some \<lparr>field_name = ''recipient'', field_value = ''john doe'',
                field_confidence = 85 / 100, field_source = ''regex''\<rparr>
      \<and> flds ''email'' = None"
proof -
  have hyp: "\<forall>(f, p) \<in> set field_patterns.
               \<forall>m. sample_search p (lower ''To: John Doe  '') = Some m
                 \<longrightarrow> match_value m \<noteq> None"
    using sample_search_participates by blast
  from extract_key_fields_result [of sample_search "''To: John Doe  ''" empty_layout, OF hyp]
  obtain flds
    where r: "extract_key_fields sample_search ''To: John Doe  '' empty_layout = Inr flds"
      and each: "\<forall>(f, p) \<in> set field_patterns.
                 (case sample_search p (lower ''To: John Doe  '') of
                    None \<Rightarrow> flds f = None
                  | Some m \<Rightarrow>
                      (\<exists>v value.
                          (if groups m = [] then v = group0 m else hd (groups m) = Some v)
                          \<and> trimmed_of v value \<and> value = strip v
                          \<and> flds f =
                              Some \<lparr>field_name = f, field_value = value,
                                    field_confidence = 85 / 100, field_source = ''regex''\<rparr>))"
    by blast
  from each recipient_entry have "flds ''recipient'' =
          Some \<lparr>field_name = ''recipient'', field_value = ''john doe'',
                field_confidence = 85 / 100, field_source = ''regex''\<rparr>"
    by (force simp: lower_To_John_Doe sample_search_def strip_john_doe)
  moreover from each email_entry have "flds ''email'' = None"
    by (force simp: lower_To_John_Doe sample_search_def)
  ultimately show ?thesis using r by blast
qed

section \<open>The pipeline\<close>

lemma classify_total: "\<exists>t c. classify_document_type search text = Inr (t, c)"
proof -
  obtain t where "py_max (score_list search text) = Inr (t, max_score search text)"
    using py_max_score_list by blast
  then show ?thesis by (simp add: classify_unfold)
qed

lemma extract_key_fields_total:
  assumes "groups_participate search"
  shows "\<exists>flds. extract_key_fields search text lay = Inr flds"
proof -
  from assms have "\<forall>(f, p) \<in> set field_patterns.
                     \<forall>m. search p (lower text) = Some m \<longrightarrow> match_value m \<noteq> None"
    unfolding groups_participate_def by blast
  from extract_loop_result [of field_patterns search "lower text" "Map.empty",
      OF field_names_distinct this]
  show ?thesis unfolding extract_key_fields_def by blast
qed

lemma detect_tables_lines:
  "header (detect_tables wd path lay) = header lay
   \<and> body (detect_tables wd path lay) = body lay
   \<and> footer (detect_tables wd path lay) = footer lay
   \<and> page_width (detect_tables wd path lay) = page_width lay
   \<and> page_height (detect_tables wd path lay) = page_height lay"
  by (simp add: detect_tables_def Let_def split: sum.splits option.splits)

lemma detect_tables_skipped:
  assumes "\<not> vision_available wd \<or> imread wd path = Inr None \<or> (\<exists>e. imread wd path = Inl e)"
  shows "detect_tables wd path lay = lay"
  using assms by (auto simp: detect_tables_def)

lemma extract_layout_degraded:
  assumes "\<not> vision_available wd \<or> (\<exists>e. image_open wd path = Inl e)"
  shows "extract_layout wd path = empty_layout"
  using assms by (auto simp: extract_layout_def)

lemma raw_text_empty: "extract_raw_text empty_layout = []"
  by (simp add: extract_raw_text_def empty_layout_def)

text \<open>
  C8. For every path and every outcome of the external calls (the matcher giving a string
  for the first group of every field match), \<open>process_document\<close> returns a result and
  raises nothing; the result carries the classification and the fields of the
  raw text and the layout after table detection. Without the vision libraries the layout
  is the empty default and the raw text is empty; when the image cannot be opened there are
  no lines and no raw text, and when OpenCV cannot read it either there are no tables.
\<close>

theorem process_document_total:
  assumes "groups_participate search"
  shows "\<exists>r. process_document wd search path = Inr r
           \<and> file_path r = path
           \<and> layout r = detect_tables wd path (extract_layout wd path)
           \<and> raw_text r = extract_raw_text (extract_layout wd path)
           \<and> classify_document_type search (raw_text r) = Inr (doc_type r, type_confidence r)
           \<and> extract_key_fields search (raw_text r) (extract_layout wd path)
               = Inr (extracted_fields r)
           \<and> (\<not> vision_available wd \<longrightarrow> layout r = empty_layout \<and> raw_text r = [])
           \<and> ((\<exists>e. image_open wd path = Inl e) \<longrightarrow>
                 header (layout r) = [] \<and> body (layout r) = [] \<and> footer (layout r) = []
                 \<and> raw_text r = [])
           \<and> ((\<exists>e. image_open wd path = Inl e) \<and> imread wd path = Inr None \<longrightarrow>
                 layout r = empty_layout)"
proof -
  let ?lay = "extract_layout wd path"
  let ?text = "extract_raw_text ?lay"
  obtain t c where cl: "classify_document_type search ?text = Inr (t, c)"
    using classify_total by blast
  obtain flds where ex: "extract_key_fields search ?text ?lay = Inr flds"
    using extract_key_fields_total [OF assms] by blast
  let ?r = "\<lparr>file_path = path, doc_type = t, type_confidence = c,
             layout = detect_tables wd path ?lay, extracted_fields = flds, raw_text = ?text,
             processing_time = time_end wd - time_start wd,
             metadata = \<lparr>meta_vision_available = vision_available wd,
                         meta_timestamp = timestamp wd\<rparr>\<rparr>"
  have run: "process_document wd search path = Inr ?r"
    by (simp add: process_document_def Let_def cl ex)
  have novision: "\<not> vision_available wd \<Longrightarrow> layout ?r = empty_layout \<and> raw_text ?r = []"
    by (simp add: extract_layout_degraded detect_tables_skipped raw_text_empty)
  have unreadable: "\<exists>e. image_open wd path = Inl e \<Longrightarrow>
      header (layout ?r) = [] \<and> body (layout ?r) = [] \<and> footer (layout ?r) = []
      \<and> raw_text ?r = []"
    using detect_tables_lines [of wd path empty_layout]
    by (simp add: extract_layout_degraded raw_text_empty) (simp add: empty_layout_def)
  have missing: "(\<exists>e. image_open wd path = Inl e) \<and> imread wd path = Inr None \<Longrightarrow>
      layout ?r = empty_layout"
    by (simp add: extract_layout_degraded detect_tables_skipped)
  show ?thesis
  proof (intro exI [of _ ?r] conjI impI)
    show "process_document wd search path = Inr ?r" by (rule run)
    show "classify_document_type search (raw_text ?r) = Inr (doc_type ?r, type_confidence ?r)"
      using cl by simp
    show "extract_key_fields search (raw_text ?r) ?lay = Inr (extracted_fields ?r)"
      using ex by simp
  qed (use novision unreadable missing in simp_all)
qed

text \<open>The missing file of the repository's tests.\<close>

theorem process_document_total_witness:
  "\<exists>r. process_document missing_file_world sample_search ''/nonexistent/path/file.pdf'' = Inr r
      \<and> layout r = empty_layout \<and> raw_text r = []"
proof -
  have g: "groups_participate sample_search"
    unfolding groups_participate_def using sample_search_participates by blast
  have o: "\<exists>e. image_open missing_file_world ''/nonexistent/path/file.pdf'' = Inl e"
    by (simp add: missing_file_world_def)
  have i: "imread missing_file_world ''/nonexistent/path/file.pdf'' = Inr None"
    by (simp add: missing_file_world_def)
  from process_document_total [OF g, of missing_file_world "''/nonexistent/path/file.pdf''"] o i
  show ?thesis by blast
qed

end
